theory Spec2Isabelle
  imports Main
begin

section \<open>fitcheck: the voice-capture-to-recommendation pipeline of \<^verbatim>\<open>src/App.tsx\<close>\<close>

text \<open>
  A shallow embedding of the \<^verbatim>\<open>App\<close> component: the resolver
  \<^verbatim>\<open>generateOutfitRecommendations\<close>, the speech-recognition callbacks and the
  click handlers. Component state (the four \<^verbatim>\<open>useState\<close> cells and the
  \<^verbatim>\<open>useRef\<close>) is a record that every handler takes and returns.

  Strings are \<^typ>\<open>string\<close>, lists of 8-bit characters. \<^verbatim>\<open>toLowerCase\<close> is modelled on
  the ASCII letters \<^verbatim>\<open>A\<close>..\<^verbatim>\<open>Z\<close> and leaves every other character as it is; all
  keywords the resolver looks for are ASCII.
\<close>

subsection \<open>Strings: \<^verbatim>\<open>toLowerCase\<close> and \<^verbatim>\<open>includes\<close>\<close>

definition upper_letters :: string where
  "upper_letters = ''ABCDEFGHIJKLMNOPQRSTUVWXYZ''"

definition lower_letters :: string where
  "lower_letters = ''abcdefghijklmnopqrstuvwxyz''"

definition lower_char :: "char \<Rightarrow> char" where
  "lower_char c = (case map_of (zip upper_letters lower_letters) c of None \<Rightarrow> c | Some l \<Rightarrow> l)"

definition toLowerCase :: "string \<Rightarrow> string" where
  "toLowerCase s = map lower_char s"

text \<open>\<^verbatim>\<open>hay.startsWith(needle)\<close>, the test \<^verbatim>\<open>includes\<close> makes at each position.\<close>

fun startsWith :: "string \<Rightarrow> string \<Rightarrow> bool" where
  "startsWith hay [] = True"
| "startsWith [] (k # ks) = False"
| "startsWith (c # cs) (k # ks) = (c = k \<and> startsWith cs ks)"

text \<open>\<^verbatim>\<open>hay.includes(needle)\<close>: the needle occurs at some position of the haystack.\<close>

fun str_includes :: "string \<Rightarrow> string \<Rightarrow> bool" where
  "str_includes [] needle = startsWith [] needle"
| "str_includes (c # cs) needle = (startsWith (c # cs) needle \<or> str_includes cs needle)"

subsection \<open>The resolver\<close>

datatype Icon = Shirt | ShoppingBag | Footprints

record OutfitRecommendation =
  category :: string
  items :: "string list"
  icon :: Icon

text \<open>The four literal arrays of \<^verbatim>\<open>generateOutfitRecommendations\<close>, in source order.\<close>

definition date_night_set :: "OutfitRecommendation list" where
  "date_night_set =
    [\<lparr>category = ''Top'',
      items = [''Fitted button-down shirt'', ''Slim-fit blazer'', ''Dark colored polo''],
      icon = Shirt\<rparr>,
     \<lparr>category = ''Bottom'',
      items = [''Dark wash jeans'', ''Chinos in navy or grey'', ''Tailored dress pants''],
      icon = ShoppingBag\<rparr>,
     \<lparr>category = ''Footwear'',
      items = [''Chelsea boots'', ''Leather loafers'', ''Clean white sneakers''],
      icon = Footprints\<rparr>]"

definition brunch_set :: "OutfitRecommendation list" where
  "brunch_set =
    [\<lparr>category = ''Top'',
      items = [''Casual henley'', ''Light sweater'', ''Graphic tee with overshirt''],
      icon = Shirt\<rparr>,
     \<lparr>category = ''Bottom'',
      items = [''Light wash jeans'', ''Khaki chinos'', ''Comfortable joggers''],
      icon = ShoppingBag\<rparr>,
     \<lparr>category = ''Footwear'',
      items = [''Canvas sneakers'', ''Casual loafers'', ''Stylish sandals''],
      icon = Footprints\<rparr>]"

definition work_set :: "OutfitRecommendation list" where
  "work_set =
    [\<lparr>category = ''Top'',
      items = [''Crisp dress shirt'', ''Professional blazer'', ''Knit polo''],
      icon = Shirt\<rparr>,
     \<lparr>category = ''Bottom'',
      items = [''Dress pants'', ''Grey wool trousers'', ''Dark chinos''],
      icon = ShoppingBag\<rparr>,
     \<lparr>category = ''Footwear'',
      items = [''Oxford dress shoes'', ''Derby shoes'', ''Minimalist leather sneakers''],
      icon = Footprints\<rparr>]"

definition casual_set :: "OutfitRecommendation list" where
  "casual_set =
    [\<lparr>category = ''Top'',
      items = [''Comfortable t-shirt'', ''Casual button-up'', ''Lightweight hoodie''],
      icon = Shirt\<rparr>,
     \<lparr>category = ''Bottom'',
      items = [''Versatile jeans'', ''Casual chinos'', ''Comfortable shorts''],
      icon = ShoppingBag\<rparr>,
     \<lparr>category = ''Footwear'',
      items = [''Classic sneakers'', ''Casual shoes'', ''Comfortable slip-ons''],
      icon = Footprints\<rparr>]"

text \<open>
  The value of the local variable \<^verbatim>\<open>recommendations\<close> at the end of the
  \<^verbatim>\<open>if\<close>/\<^verbatim>\<open>else if\<close> chain, as a function of \<^verbatim>\<open>input\<close>.
\<close>

definition recommendations :: "string \<Rightarrow> OutfitRecommendation list" where
  "recommendations input =
    (let lowerInput = toLowerCase input in
     if str_includes lowerInput ''date'' \<or> str_includes lowerInput ''dinner'' then date_night_set
     else if str_includes lowerInput ''brunch'' \<or> str_includes lowerInput ''friends'' then brunch_set
     else if str_includes lowerInput ''work'' \<or> str_includes lowerInput ''office'' then work_set
     else casual_set)"

subsection \<open>Component state\<close>

text \<open>
  The recognition object the effect creates and configures, and the two window
  properties it is looked up under (\<^verbatim>\<open>'SpeechRecognition' in window\<close>,
  \<^verbatim>\<open>'webkitSpeechRecognition' in window\<close>).
\<close>

record SpeechRecognition =
  continuous :: bool
  interimResults :: bool
  lang :: string

record Window =
  has_SpeechRecognition :: bool
  has_webkitSpeechRecognition :: bool

text \<open>
  Calls that leave the component: \<^verbatim>\<open>recognitionRef.current.start()\<close>,
  \<^verbatim>\<open>recognitionRef.current.stop()\<close> and \<^verbatim>\<open>console.error\<close>. They are logged in
  the order they are made.
\<close>

datatype Effect = RecognitionStart | RecognitionStop | ConsoleError string

text \<open>
  The state cells of \<^verbatim>\<open>App\<close>, the ref, the callbacks handed to \<^verbatim>\<open>setTimeout\<close>
  that have not run yet (each is \<^verbatim>\<open>generateOutfitRecommendations(finalTranscript)\<close>,
  kept as its \<^verbatim>\<open>finalTranscript\<close>, oldest first: all have the same delay of 500 ms),
  and the log of outgoing calls.
\<close>

record AppState =
  isListening :: bool
  transcript :: string
  showResults :: bool
  outfitRecommendations :: "OutfitRecommendation list"
  recognitionRef :: "SpeechRecognition option"
  timeouts :: "string list"
  effects :: "Effect list"

text \<open>The initial values of \<^verbatim>\<open>useState\<close> and \<^verbatim>\<open>useRef\<close>.\<close>

definition initial :: AppState where
  "initial =
    \<lparr>isListening = False, transcript = [], showResults = False,
     outfitRecommendations = [], recognitionRef = None, timeouts = [], effects = []\<rparr>"

text \<open>
  The body of the mount effect: when either property is in \<^verbatim>\<open>window\<close> the
  recognition object is created, configured and stored in the ref; otherwise the ref
  stays \<^verbatim>\<open>null\<close> and no callback is registered.
\<close>

definition mount :: "Window \<Rightarrow> AppState" where
  "mount w =
    (if has_SpeechRecognition w \<or> has_webkitSpeechRecognition w
     then initial\<lparr>recognitionRef :=
            Some \<lparr>continuous = False, interimResults = True, lang = ''en-US''\<rparr>\<rparr>
     else initial)"

subsection \<open>Resolution and the click handlers\<close>

definition generateOutfitRecommendations :: "string \<Rightarrow> AppState \<Rightarrow> AppState" where
  "generateOutfitRecommendations input s =
    s\<lparr>outfitRecommendations := recommendations input,
      showResults := True,
      isListening := False\<rparr>"

definition startListening :: "AppState \<Rightarrow> AppState" where
  "startListening s =
    (if recognitionRef s \<noteq> None \<and> \<not> isListening s
     then s\<lparr>transcript := [],
            showResults := False,
            isListening := True,
            effects := effects s @ [RecognitionStart]\<rparr>
     else s)"

definition stopListening :: "AppState \<Rightarrow> AppState" where
  "stopListening s =
    (if recognitionRef s \<noteq> None \<and> isListening s
     then s\<lparr>effects := effects s @ [RecognitionStop],
            isListening := False\<rparr>
     else s)"

definition handlePromptClick :: "string \<Rightarrow> AppState \<Rightarrow> AppState" where
  "handlePromptClick prompt s = generateOutfitRecommendations prompt (s\<lparr>transcript := prompt\<rparr>)"

definition resetApp :: "AppState \<Rightarrow> AppState" where
  "resetApp s = s\<lparr>showResults := False, transcript := [], outfitRecommendations := []\<rparr>"

subsection \<open>The recognition callbacks\<close>

text \<open>
  One entry of \<^verbatim>\<open>event.results\<close>: the transcript of its first alternative
  (\<^verbatim>\<open>event.results[i][0].transcript\<close>, which the declared type makes a string) and
  its \<^verbatim>\<open>isFinal\<close> flag.
\<close>

record SpeechRecognitionResult =
  alt0_transcript :: string
  isFinal :: bool

record SpeechRecognitionEvent =
  results :: "SpeechRecognitionResult list"
  resultIndex :: nat

text \<open>
  The \<^verbatim>\<open>for\<close> loop of \<^verbatim>\<open>onresult\<close>, from index \<^verbatim>\<open>i\<close> with the two
  accumulators \<^verbatim>\<open>(interimTranscript, finalTranscript)\<close>.
\<close>

function onresult_loop ::
  "SpeechRecognitionResult list \<Rightarrow> nat \<Rightarrow> string \<times> string \<Rightarrow> string \<times> string" where
  "onresult_loop rs i (interimTranscript, finalTranscript) =
    (if i < length rs then
       (let transcriptText = alt0_transcript (rs ! i) in
        if isFinal (rs ! i)
        then onresult_loop rs (i + 1) (interimTranscript, finalTranscript @ transcriptText)
        else onresult_loop rs (i + 1) (interimTranscript @ transcriptText, finalTranscript))
     else (interimTranscript, finalTranscript))"
  by pat_completeness auto
termination
  by (relation "measure (\<lambda>(rs, i, acc). length rs - i)") auto

text \<open>
  \<^verbatim>\<open>onresult\<close>: the empty string is falsy, so \<^verbatim>\<open>finalTranscript || interimTranscript\<close>
  is the final transcript unless it is empty, and the timeout is set only for a
  non-empty final transcript.
\<close>

definition onresult :: "SpeechRecognitionEvent \<Rightarrow> AppState \<Rightarrow> AppState" where
  "onresult event s =
    (case onresult_loop (results event) (resultIndex event) ([], []) of
       (interimTranscript, finalTranscript) \<Rightarrow>
         (let s1 = s\<lparr>transcript :=
                      (if finalTranscript \<noteq> [] then finalTranscript else interimTranscript)\<rparr>
          in if finalTranscript \<noteq> []
             then s1\<lparr>timeouts := timeouts s1 @ [finalTranscript]\<rparr>
             else s1))"

definition onerror :: "string \<Rightarrow> AppState \<Rightarrow> AppState" where
  "onerror err s =
    s\<lparr>effects := effects s @ [ConsoleError err], isListening := False\<rparr>"

definition onend :: "AppState \<Rightarrow> AppState" where
  "onend s = s\<lparr>isListening := False\<rparr>"

text \<open>The oldest pending timeout fires and runs its callback.\<close>

definition timer_fire :: "AppState \<Rightarrow> AppState" where
  "timer_fire s =
    (case timeouts s of
       [] \<Rightarrow> s
     | finalTranscript # rest \<Rightarrow> generateOutfitRecommendations finalTranscript (s\<lparr>timeouts := rest\<rparr>))"

subsection \<open>Runs of the component\<close>

text \<open>
  The states the component can be in after mounting in window \<^verbatim>\<open>w\<close>: any handler may
  run at any time (the input view stays mounted, buttons included, while its exit
  transition runs, so a click is not tied to the view that \<^verbatim>\<open>showResults\<close> selects);
  the recognition callbacks exist only when the recognition object does.
\<close>

inductive reachable :: "Window \<Rightarrow> AppState \<Rightarrow> bool" for w :: Window where
  r_mount: "reachable w (mount w)"
| r_start: "reachable w s \<Longrightarrow> reachable w (startListening s)"
| r_stop: "reachable w s \<Longrightarrow> reachable w (stopListening s)"
| r_prompt: "reachable w s \<Longrightarrow> reachable w (handlePromptClick prompt s)"
| r_reset: "reachable w s \<Longrightarrow> reachable w (resetApp s)"
| r_result: "reachable w s \<Longrightarrow> recognitionRef s \<noteq> None \<Longrightarrow> reachable w (onresult event s)"
| r_error: "reachable w s \<Longrightarrow> recognitionRef s \<noteq> None \<Longrightarrow> reachable w (onerror err s)"
| r_end: "reachable w s \<Longrightarrow> recognitionRef s \<noteq> None \<Longrightarrow> reachable w (onend s)"
| r_timer: "reachable w s \<Longrightarrow> reachable w (timer_fire s)"

subsection \<open>Notions of the specification\<close>

text \<open>
  The session state of the specification, read off the two flags: the results view is
  shown exactly when \<^verbatim>\<open>showResults\<close> holds.
\<close>

datatype SessionState = Idle | Listening | Resolved

definition sessionState :: "AppState \<Rightarrow> SessionState" where
  "sessionState s =
    (if showResults s then Resolved else if isListening s then Listening else Idle)"

text \<open>
  First match wins: keyword groups in priority order, each with its outfit set, and a
  default for a phrase that matches no group.
\<close>

fun matches_group :: "string list \<Rightarrow> string \<Rightarrow> bool" where
  "matches_group [] phrase = False"
| "matches_group (k # ks) phrase = (str_includes phrase k \<or> matches_group ks phrase)"

fun first_match :: "(string list \<times> 'a) list \<Rightarrow> 'a \<Rightarrow> string \<Rightarrow> 'a" where
  "first_match [] dflt phrase = dflt"
| "first_match ((ks, v) # groups) dflt phrase =
    (if matches_group ks phrase then v else first_match groups dflt phrase)"

text \<open>
  A keyword occurs in a phrase case-insensitively: at some position every character of
  the keyword meets the same letter, in either case.
\<close>

definition same_letter :: "char \<Rightarrow> char \<Rightarrow> bool" where
  "same_letter a b =
    (a = b \<or> (a, b) \<in> set (zip upper_letters lower_letters)
           \<or> (b, a) \<in> set (zip upper_letters lower_letters))"

fun starts_with_ci :: "string \<Rightarrow> string \<Rightarrow> bool" where
  "starts_with_ci phrase [] = True"
| "starts_with_ci [] (k # ks) = False"
| "starts_with_ci (c # cs) (k # ks) = (same_letter c k \<and> starts_with_ci cs ks)"

fun contains_ci :: "string \<Rightarrow> string \<Rightarrow> bool" where
  "contains_ci [] keyword = starts_with_ci [] keyword"
| "contains_ci (c # cs) keyword = (starts_with_ci (c # cs) keyword \<or> contains_ci cs keyword)"

text \<open>The segments of an event that carry a given \<^verbatim>\<open>isFinal\<close> flag, concatenated.\<close>

definition segments_text :: "bool \<Rightarrow> SpeechRecognitionResult list \<Rightarrow> string" where
  "segments_text fin rs = concat (map alt0_transcript (filter (\<lambda>r. isFinal r = fin) rs))"

text \<open>
  The invariant of the specification's data model: the recommendation list is non-empty
  exactly in session state \<open>Resolved\<close>.
\<close>

definition resolved_invariant :: "AppState \<Rightarrow> bool" where
  "resolved_invariant s = (outfitRecommendations s \<noteq> [] \<longleftrightarrow> sessionState s = Resolved)"

section \<open>Auxiliary facts\<close>

subsection \<open>Letters and lower case\<close>

lemma distinct_upper_letters: "distinct upper_letters"
  unfolding upper_letters_def by simp

lemma lower_letter_not_upper: "b \<in> set lower_letters \<Longrightarrow> b \<notin> set upper_letters"
  unfolding upper_letters_def lower_letters_def by auto

lemma lower_char_pair:
  assumes "(a, b) \<in> set (zip upper_letters lower_letters)"
  shows "lower_char a = b" and "lower_char b = b"
proof -
  have "map_of (zip upper_letters lower_letters) a = Some b"
  proof (rule map_of_is_SomeI)
    have "length upper_letters = length lower_letters"
      by (simp add: upper_letters_def lower_letters_def)
    then show "distinct (map fst (zip upper_letters lower_letters))"
      using distinct_upper_letters by simp
    show "(a, b) \<in> set (zip upper_letters lower_letters)" by (rule assms)
  qed
  then show "lower_char a = b" by (simp add: lower_char_def)
  have "b \<in> set lower_letters" using assms by (rule set_zip_rightD)
  then have "b \<notin> set upper_letters" by (rule lower_letter_not_upper)
  then have "b \<notin> fst ` set (zip upper_letters lower_letters)"
    by (metis (no_types, lifting) imageE prod.collapse set_zip_leftD)
  then have "map_of (zip upper_letters lower_letters) b = None"
    by (simp add: map_of_eq_None_iff)
  then show "lower_char b = b" by (simp add: lower_char_def)
qed

lemma same_letter_lower_char: "same_letter a b \<Longrightarrow> lower_char a = lower_char b"
  unfolding same_letter_def using lower_char_pair [of a b] lower_char_pair [of b a]
  by metis

lemma starts_with_ci_toLowerCase:
  "starts_with_ci phrase keyword \<Longrightarrow> startsWith (toLowerCase phrase) (toLowerCase keyword)"
  by (induction phrase keyword rule: starts_with_ci.induct)
     (simp_all add: toLowerCase_def same_letter_lower_char)

lemma contains_ci_toLowerCase:
  "contains_ci phrase keyword \<Longrightarrow> str_includes (toLowerCase phrase) (toLowerCase keyword)"
proof (induction phrase)
  case Nil
  then show ?case
    using starts_with_ci_toLowerCase [of "[]" keyword] by (simp add: toLowerCase_def)
next
  case (Cons c cs)
  then show ?case
    using starts_with_ci_toLowerCase [of "c # cs" keyword] by (auto simp: toLowerCase_def)
qed

lemma toLowerCase_date: "toLowerCase ''date'' = ''date''"
  by (simp add: toLowerCase_def lower_char_def upper_letters_def lower_letters_def)

lemma toLowerCase_dinner: "toLowerCase ''dinner'' = ''dinner''"
  by (simp add: toLowerCase_def lower_char_def upper_letters_def lower_letters_def)

subsection \<open>The outfit sets\<close>

lemma outfit_sets_distinct: "distinct [date_night_set, brunch_set, work_set, casual_set]"
  by (simp add: date_night_set_def brunch_set_def work_set_def casual_set_def)

lemma recommendations_cases:
  "recommendations phrase \<in> {date_night_set, brunch_set, work_set, casual_set}"
  by (simp add: recommendations_def Let_def)

lemma recommendations_nonempty: "recommendations phrase \<noteq> []"
  using recommendations_cases [of phrase]
  by (auto simp: date_night_set_def brunch_set_def work_set_def casual_set_def)

subsection \<open>The loop of \<^verbatim>\<open>onresult\<close>\<close>

declare onresult_loop.simps [simp del]

lemma onresult_loop_segments:
  "onresult_loop rs i (a, b) =
     (a @ segments_text False (drop i rs), b @ segments_text True (drop i rs))"
proof (induction rs i "(a, b)" arbitrary: a b rule: onresult_loop.induct)
  case (1 rs i a b)
  show ?case
  proof (cases "i < length rs")
    case False
    then show ?thesis
      by (subst onresult_loop.simps) (simp add: segments_text_def)
  next
    case True
    then have d: "drop i rs = rs ! i # drop (Suc i) rs"
      by (simp add: Cons_nth_drop_Suc)
    show ?thesis
    proof (cases "isFinal (rs ! i)")
      case fin: True
      from 1(1) [OF True refl fin] True fin d show ?thesis
        by (subst onresult_loop.simps) (simp add: segments_text_def)
    next
      case nfin: False
      from 1(2) [OF True refl nfin] True nfin d show ?thesis
        by (subst onresult_loop.simps) (simp add: segments_text_def)
    qed
  qed
qed

lemma onresult_timeouts:
  "timeouts (onresult event s) =
    (if segments_text True (drop (resultIndex event) (results event)) \<noteq> []
     then timeouts s @ [segments_text True (drop (resultIndex event) (results event))]
     else timeouts s)"
  by (simp add: onresult_def onresult_loop_segments Let_def)

lemma onresult_frame:
  "isListening (onresult event s) = isListening s"
  "showResults (onresult event s) = showResults s"
  "outfitRecommendations (onresult event s) = outfitRecommendations s"
  "recognitionRef (onresult event s) = recognitionRef s"
  "effects (onresult event s) = effects s"
  by (simp_all add: onresult_def Let_def split: prod.splits)

subsection \<open>Invariants of runs\<close>

lemma resolved_invariant_iff:
  "resolved_invariant s = ((outfitRecommendations s \<noteq> []) = showResults s)"
  by (simp add: resolved_invariant_def sessionState_def)

lemma inv_generate: "resolved_invariant (generateOutfitRecommendations input s)"
  by (simp add: resolved_invariant_iff generateOutfitRecommendations_def recommendations_nonempty)

lemma inv_timer: "resolved_invariant s \<Longrightarrow> resolved_invariant (timer_fire s)"
  by (simp add: timer_fire_def inv_generate split: list.splits)

lemma inv_prompt: "resolved_invariant (handlePromptClick prompt s)"
  by (simp add: handlePromptClick_def inv_generate)

lemma inv_reset: "resolved_invariant (resetApp s)"
  by (simp add: resolved_invariant_iff resetApp_def)

lemma inv_stop: "resolved_invariant s \<Longrightarrow> resolved_invariant (stopListening s)"
  by (simp add: resolved_invariant_iff stopListening_def)

lemma inv_start:
  "resolved_invariant s \<Longrightarrow> \<not> showResults s \<Longrightarrow> resolved_invariant (startListening s)"
  by (simp add: resolved_invariant_iff startListening_def)

lemma inv_onresult: "resolved_invariant s \<Longrightarrow> resolved_invariant (onresult event s)"
  by (simp add: resolved_invariant_iff onresult_frame)

lemma inv_onerror: "resolved_invariant s \<Longrightarrow> resolved_invariant (onerror err s)"
  by (simp add: resolved_invariant_iff onerror_def)

lemma inv_onend: "resolved_invariant s \<Longrightarrow> resolved_invariant (onend s)"
  by (simp add: resolved_invariant_iff onend_def)

lemma results_nonempty: "reachable w s \<Longrightarrow> showResults s \<Longrightarrow> outfitRecommendations s \<noteq> []"
proof (induction rule: reachable.induct)
  case r_mount
  then show ?case by (simp add: mount_def initial_def split: if_splits)
next
  case (r_start s)
  then show ?case by (simp add: startListening_def split: if_splits)
next
  case (r_stop s)
  then show ?case by (simp add: stopListening_def split: if_splits)
next
  case (r_prompt s prompt)
  then show ?case
    by (simp add: handlePromptClick_def generateOutfitRecommendations_def recommendations_nonempty)
next
  case (r_reset s)
  then show ?case by (simp add: resetApp_def)
next
  case (r_result s event)
  then show ?case by (simp add: onresult_frame)
next
  case (r_error s err)
  then show ?case by (simp add: onerror_def)
next
  case (r_end s)
  then show ?case by (simp add: onend_def)
next
  case (r_timer s)
  then show ?case
    by (simp add: timer_fire_def generateOutfitRecommendations_def recommendations_nonempty
        split: list.splits)
qed

lemma inv_start_resolved:
  "resolved_invariant s \<Longrightarrow> showResults s \<Longrightarrow> recognitionRef s \<noteq> None \<Longrightarrow>
   \<not> isListening s \<Longrightarrow> \<not> resolved_invariant (startListening s)"
  by (simp add: resolved_invariant_iff startListening_def)

lemma results_not_listening: "reachable w s \<Longrightarrow> showResults s \<Longrightarrow> \<not> isListening s"
proof (induction rule: reachable.induct)
  case r_mount
  then show ?case by (simp add: mount_def initial_def split: if_splits)
next
  case (r_start s)
  then show ?case by (simp add: startListening_def split: if_splits)
next
  case (r_stop s)
  then show ?case by (simp add: stopListening_def split: if_splits)
next
  case (r_prompt s prompt)
  then show ?case by (simp add: handlePromptClick_def generateOutfitRecommendations_def)
next
  case (r_reset s)
  then show ?case by (simp add: resetApp_def)
next
  case (r_result s event)
  then show ?case by (simp add: onresult_frame)
next
  case (r_error s err)
  then show ?case by (simp add: onerror_def)
next
  case (r_end s)
  then show ?case by (simp add: onend_def)
next
  case (r_timer s)
  then show ?case
    by (simp add: timer_fire_def generateOutfitRecommendations_def split: list.splits)
qed

lemma no_capability_invariant:
  "reachable w s \<Longrightarrow> \<not> has_SpeechRecognition w \<Longrightarrow> \<not> has_webkitSpeechRecognition w \<Longrightarrow>
   recognitionRef s = None \<and> \<not> isListening s \<and> effects s = [] \<and> timeouts s = []"
proof (induction rule: reachable.induct)
  case r_mount
  then show ?case by (simp add: mount_def initial_def)
next
  case (r_start s)
  then show ?case by (simp add: startListening_def)
next
  case (r_stop s)
  then show ?case by (simp add: stopListening_def)
next
  case (r_prompt s prompt)
  then show ?case by (simp add: handlePromptClick_def generateOutfitRecommendations_def)
next
  case (r_reset s)
  then show ?case by (simp add: resetApp_def)
next
  case (r_timer s)
  then show ?case by (simp add: timer_fire_def)
qed simp_all

section \<open>The resolver\<close>

text \<open>
  Claim C1. For every phrase the resolver tests the keyword groups in the fixed order
  date/dinner, brunch/friends, work/office, and the first group that matches decides the
  result; no group matching gives the casual default. The phrase "brunch after work"
  contains both "brunch" and "work" and resolves to the Brunch set, which differs from
  the Work set.
\<close>

theorem resolve_priority_order:
  "recommendations phrase =
     first_match
       [([''date'', ''dinner''], date_night_set),
        ([''brunch'', ''friends''], brunch_set),
        ([''work'', ''office''], work_set)]
       casual_set (toLowerCase phrase)
   \<and> str_includes (toLowerCase ''brunch after work'') ''brunch''
   \<and> str_includes (toLowerCase ''brunch after work'') ''work''
   \<and> recommendations ''brunch after work'' = brunch_set
   \<and> brunch_set \<noteq> work_set"
proof -
  have "recommendations phrase =
     first_match
       [([''date'', ''dinner''], date_night_set),
        ([''brunch'', ''friends''], brunch_set),
        ([''work'', ''office''], work_set)]
       casual_set (toLowerCase phrase)"
    by (simp add: recommendations_def Let_def)
  moreover have "toLowerCase ''brunch after work'' = ''brunch after work''"
    by (simp add: toLowerCase_def lower_char_def upper_letters_def lower_letters_def)
  moreover have "str_includes ''brunch after work'' ''brunch''"
    and "str_includes ''brunch after work'' ''work''"
    and "\<not> str_includes ''brunch after work'' ''date''"
    and "\<not> str_includes ''brunch after work'' ''dinner''"
    by simp_all
  moreover have "brunch_set \<noteq> work_set"
    using outfit_sets_distinct by simp
  ultimately show ?thesis
    by (simp add: recommendations_def Let_def)
qed

text \<open>
  Claim C2. Every phrase that contains "date" or "dinner" as a substring, in any mix of
  upper and lower case and with any text around it, resolves to exactly the Date-night
  set, with the three categories and their items as listed.
\<close>

theorem resolve_date_dinner:
  assumes "contains_ci phrase ''date'' \<or> contains_ci phrase ''dinner''"
  shows "recommendations phrase = date_night_set
    \<and> map (\<lambda>r. (category r, items r)) (recommendations phrase) =
        [(''Top'', [''Fitted button-down shirt'', ''Slim-fit blazer'', ''Dark colored polo'']),
         (''Bottom'', [''Dark wash jeans'', ''Chinos in navy or grey'', ''Tailored dress pants'']),
         (''Footwear'', [''Chelsea boots'', ''Leather loafers'', ''Clean white sneakers''])]"
proof -
  have "str_includes (toLowerCase phrase) ''date'' \<or> str_includes (toLowerCase phrase) ''dinner''"
    using assms contains_ci_toLowerCase [of phrase "''date''"]
      contains_ci_toLowerCase [of phrase "''dinner''"]
    by (auto simp: toLowerCase_date toLowerCase_dinner)
  then have "recommendations phrase = date_night_set"
    by (auto simp: recommendations_def Let_def)
  then show ?thesis
    by (simp add: date_night_set_def)
qed

text \<open>
  Witness for C2: "Is it DINNER time?" contains "dinner" in upper case and resolves to
  the Date-night set.
\<close>

theorem resolve_date_dinner_witness:
  "(contains_ci ''Is it DINNER time?'' ''date'' \<or> contains_ci ''Is it DINNER time?'' ''dinner'')
   \<and> recommendations ''Is it DINNER time?'' = date_night_set"
proof -
  have h: "contains_ci ''Is it DINNER time?'' ''date'' \<or> contains_ci ''Is it DINNER time?'' ''dinner''"
    by (simp add: same_letter_def upper_letters_def lower_letters_def)
  from resolve_date_dinner [OF h] h show ?thesis by simp
qed

text \<open>
  Claim C7. The resolver is total with no failure path: for every phrase, the empty one
  included, the result has exactly the three categories Top, Bottom, Footwear in this
  order, each with exactly three items; it is the casual default set exactly when no
  keyword of any group occurs in the lower-cased phrase.
\<close>

theorem resolve_total_well_formed:
  "map category (recommendations phrase) = [''Top'', ''Bottom'', ''Footwear'']
   \<and> map (\<lambda>r. length (items r)) (recommendations phrase) = [3, 3, 3]
   \<and> recommendations [] = casual_set
   \<and> (recommendations phrase = casual_set) =
       (\<not> matches_group [''date'', ''dinner'', ''brunch'', ''friends'', ''work'', ''office'']
            (toLowerCase phrase))"
proof -
  have "map category (recommendations phrase) = [''Top'', ''Bottom'', ''Footwear'']"
    using recommendations_cases [of phrase]
    by (auto simp: date_night_set_def brunch_set_def work_set_def casual_set_def)
  moreover have "map (\<lambda>r. length (items r)) (recommendations phrase) = [3, 3, 3]"
    using recommendations_cases [of phrase]
    by (auto simp: date_night_set_def brunch_set_def work_set_def casual_set_def)
  moreover have "recommendations [] = casual_set"
    by (simp add: recommendations_def toLowerCase_def)
  moreover have "(recommendations phrase = casual_set) =
       (\<not> matches_group [''date'', ''dinner'', ''brunch'', ''friends'', ''work'', ''office'']
            (toLowerCase phrase))"
    using outfit_sets_distinct by (auto simp: recommendations_def Let_def)
  ultimately show ?thesis by blast
qed

text \<open>
  Claim C9. The resolver is pure and deterministic: the recommendation list it stores
  depends on the phrase only, so two calls with the same phrase, in whatever states,
  store identical lists; a second call with the same phrase changes nothing.
\<close>

theorem resolve_deterministic:
  "outfitRecommendations (generateOutfitRecommendations phrase s1) =
     outfitRecommendations (generateOutfitRecommendations phrase s2)
   \<and> outfitRecommendations (generateOutfitRecommendations phrase s1) = recommendations phrase
   \<and> generateOutfitRecommendations phrase (generateOutfitRecommendations phrase s1) =
       generateOutfitRecommendations phrase s1"
  by (simp add: generateOutfitRecommendations_def)

section \<open>Speech capture\<close>

text \<open>
  Claim C3. For every result event the transcript shown afterwards is the concatenation
  of the segments marked final in the event when that concatenation is non-empty, and
  otherwise the concatenation of the interim segments in the event: within one event,
  final takes precedence over interim. The segments of an event are the entries of
  \<^verbatim>\<open>event.results\<close> from index \<^verbatim>\<open>event.resultIndex\<close> on, the ones the event
  delivers.
\<close>

theorem onresult_transcript_from_resultIndex:
  "transcript (onresult event s) =
    (if segments_text True (drop (resultIndex event) (results event)) \<noteq> []
     then segments_text True (drop (resultIndex event) (results event))
     else segments_text False (drop (resultIndex event) (results event)))"
  by (simp add: onresult_def onresult_loop_segments Let_def)

text \<open>
  Claim C4, as amended. When stop is invoked while Listening and a resolution is pending
  (a non-empty final transcript has arrived and its settle delay has not elapsed), the
  session becomes Idle at once and the recognition is asked to stop, but the pending
  resolution stays: when the delay elapses the recommendations for that final transcript
  are produced and the session becomes Resolved.
\<close>

theorem stop_keeps_pending_resolution:
  assumes "recognitionRef s \<noteq> None"
    and "sessionState s = Listening"
    and "timeouts s = finalTranscript # rest"
  shows "sessionState (stopListening s) = Idle
    \<and> effects (stopListening s) = effects s @ [RecognitionStop]
    \<and> timeouts (stopListening s) = finalTranscript # rest
    \<and> outfitRecommendations (stopListening s) = outfitRecommendations s
    \<and> outfitRecommendations (timer_fire (stopListening s)) = recommendations finalTranscript
    \<and> outfitRecommendations (timer_fire (stopListening s)) \<noteq> []
    \<and> sessionState (timer_fire (stopListening s)) = Resolved"
proof -
  from assms(2) have l: "isListening s" and r: "\<not> showResults s"
    by (simp_all add: sessionState_def split: if_splits)
  from assms(1) l have st: "stopListening s =
      s\<lparr>effects := effects s @ [RecognitionStop], isListening := False\<rparr>"
    by (simp add: stopListening_def)
  show ?thesis
    using r assms(3) recommendations_nonempty [of finalTranscript]
    by (simp add: st sessionState_def timer_fire_def generateOutfitRecommendations_def)
qed

text \<open>
  Witness for C4: capture is started, the final segment "dinner date" arrives, and stop
  is invoked before the timeout has fired.
\<close>

theorem stop_keeps_pending_resolution_witness:
  "recognitionRef
     (onresult \<lparr>results = [\<lparr>alt0_transcript = ''dinner date'', isFinal = True\<rparr>], resultIndex = 0\<rparr>
       (startListening (mount \<lparr>has_SpeechRecognition = True, has_webkitSpeechRecognition = False\<rparr>)))
     \<noteq> None
   \<and> sessionState
     (onresult \<lparr>results = [\<lparr>alt0_transcript = ''dinner date'', isFinal = True\<rparr>], resultIndex = 0\<rparr>
       (startListening (mount \<lparr>has_SpeechRecognition = True, has_webkitSpeechRecognition = False\<rparr>)))
     = Listening
   \<and> timeouts
     (onresult \<lparr>results = [\<lparr>alt0_transcript = ''dinner date'', isFinal = True\<rparr>], resultIndex = 0\<rparr>
       (startListening (mount \<lparr>has_SpeechRecognition = True, has_webkitSpeechRecognition = False\<rparr>)))
     = [''dinner date'']
   \<and> sessionState (timer_fire (stopListening
     (onresult \<lparr>results = [\<lparr>alt0_transcript = ''dinner date'', isFinal = True\<rparr>], resultIndex = 0\<rparr>
       (startListening (mount \<lparr>has_SpeechRecognition = True, has_webkitSpeechRecognition = False\<rparr>)))))
     = Resolved"
proof -
  let ?s = "onresult \<lparr>results = [\<lparr>alt0_transcript = ''dinner date'', isFinal = True\<rparr>], resultIndex = 0\<rparr>
       (startListening (mount \<lparr>has_SpeechRecognition = True, has_webkitSpeechRecognition = False\<rparr>))"
  have h1: "recognitionRef ?s \<noteq> None"
    by (simp add: onresult_frame startListening_def mount_def initial_def)
  have h2: "sessionState ?s = Listening"
    by (simp add: sessionState_def onresult_frame startListening_def mount_def initial_def)
  have h3: "timeouts ?s = ''dinner date'' # []"
    by (simp add: onresult_timeouts segments_text_def startListening_def mount_def initial_def)
  from stop_keeps_pending_resolution [OF h1 h2 h3] h1 h2 h3 show ?thesis
    by simp
qed

text \<open>
  Counterexample for C4 as stated: in the run above stop is invoked while Listening with
  the resolution of "dinner date" pending. The session becomes Idle, and when the
  timeout fires the Date-night recommendations are produced all the same and the session
  is Resolved.
\<close>

theorem stop_cancels_resolution_counterexample:
  "isListening
     (onresult \<lparr>results = [\<lparr>alt0_transcript = ''dinner date'', isFinal = True\<rparr>], resultIndex = 0\<rparr>
       (startListening (mount \<lparr>has_SpeechRecognition = True, has_webkitSpeechRecognition = False\<rparr>)))
   \<and> timeouts
     (onresult \<lparr>results = [\<lparr>alt0_transcript = ''dinner date'', isFinal = True\<rparr>], resultIndex = 0\<rparr>
       (startListening (mount \<lparr>has_SpeechRecognition = True, has_webkitSpeechRecognition = False\<rparr>)))
     = [''dinner date'']
   \<and> sessionState (stopListening
     (onresult \<lparr>results = [\<lparr>alt0_transcript = ''dinner date'', isFinal = True\<rparr>], resultIndex = 0\<rparr>
       (startListening (mount \<lparr>has_SpeechRecognition = True, has_webkitSpeechRecognition = False\<rparr>))))
     = Idle
   \<and> outfitRecommendations (timer_fire (stopListening
     (onresult \<lparr>results = [\<lparr>alt0_transcript = ''dinner date'', isFinal = True\<rparr>], resultIndex = 0\<rparr>
       (startListening (mount \<lparr>has_SpeechRecognition = True, has_webkitSpeechRecognition = False\<rparr>)))))
     = date_night_set
   \<and> sessionState (timer_fire (stopListening
     (onresult \<lparr>results = [\<lparr>alt0_transcript = ''dinner date'', isFinal = True\<rparr>], resultIndex = 0\<rparr>
       (startListening (mount \<lparr>has_SpeechRecognition = True, has_webkitSpeechRecognition = False\<rparr>)))))
     = Resolved"
proof -
  have e: "onresult \<lparr>results = [\<lparr>alt0_transcript = ''dinner date'', isFinal = True\<rparr>], resultIndex = 0\<rparr>
       (startListening (mount \<lparr>has_SpeechRecognition = True, has_webkitSpeechRecognition = False\<rparr>))
     = \<lparr>isListening = True, transcript = ''dinner date'', showResults = False,
        outfitRecommendations = [],
        recognitionRef = Some \<lparr>continuous = False, interimResults = True, lang = ''en-US''\<rparr>,
        timeouts = [''dinner date''], effects = [RecognitionStart]\<rparr>"
    by (simp add: onresult_def onresult_loop_segments segments_text_def startListening_def
        mount_def initial_def)
  have r: "recommendations ''dinner date'' = date_night_set"
    by (simp add: recommendations_def Let_def toLowerCase_def lower_char_def
        upper_letters_def lower_letters_def)
  show ?thesis
    by (simp add: e r stopListening_def timer_fire_def generateOutfitRecommendations_def
        sessionState_def)
qed

section \<open>Session state\<close>

text \<open>
  Claim C5, as amended. In every reachable state whose session state is Resolved the
  recommendation list is non-empty. Canned-phrase selection, resolution and reset
  establish the equivalence "the list is non-empty exactly when the session state is
  Resolved" from any state; stop, the result, error and end events and the timeout
  preserve it from any state; start preserves it when it is invoked in a state that is
  not Resolved. Start invoked with success in a Resolved state that satisfies the
  equivalence breaks it: the list stays non-empty and the session is no longer Resolved.
\<close>

theorem resolved_invariant_preserved:
  "(reachable w r \<and> sessionState r = Resolved \<longrightarrow> outfitRecommendations r \<noteq> [])
   \<and> resolved_invariant (handlePromptClick prompt s)
   \<and> resolved_invariant (generateOutfitRecommendations input s)
   \<and> resolved_invariant (resetApp s)
   \<and> (resolved_invariant s \<longrightarrow>
        resolved_invariant (stopListening s)
        \<and> resolved_invariant (onresult event s)
        \<and> resolved_invariant (onerror err s)
        \<and> resolved_invariant (onend s)
        \<and> resolved_invariant (timer_fire s))
   \<and> (resolved_invariant s \<and> sessionState s \<noteq> Resolved \<longrightarrow>
        resolved_invariant (startListening s))
   \<and> (resolved_invariant r \<and> sessionState r = Resolved \<and> recognitionRef r \<noteq> None
        \<and> \<not> isListening r \<longrightarrow>
        \<not> resolved_invariant (startListening r)
        \<and> outfitRecommendations (startListening r) \<noteq> []
        \<and> sessionState (startListening r) = Listening)"
proof -
  have a: "reachable w r \<and> sessionState r = Resolved \<longrightarrow> outfitRecommendations r \<noteq> []"
    using results_nonempty [of w r] by (auto simp: sessionState_def split: if_splits)
  have b: "resolved_invariant s \<and> sessionState s \<noteq> Resolved \<longrightarrow>
      resolved_invariant (startListening s)"
    using inv_start [of s] by (auto simp: sessionState_def split: if_splits)
  have c: "resolved_invariant r \<and> sessionState r = Resolved \<and> recognitionRef r \<noteq> None
        \<and> \<not> isListening r \<longrightarrow>
        \<not> resolved_invariant (startListening r)
        \<and> outfitRecommendations (startListening r) \<noteq> []
        \<and> sessionState (startListening r) = Listening"
  proof (intro impI, elim conjE)
    assume i: "resolved_invariant r" and st: "sessionState r = Resolved"
      and ref: "recognitionRef r \<noteq> None" and nl: "\<not> isListening r"
    from st have sh: "showResults r"
      by (simp add: sessionState_def split: if_splits)
    from i st have ne: "outfitRecommendations r \<noteq> []"
      by (simp add: resolved_invariant_def)
    from inv_start_resolved [OF i sh ref nl] ne ref nl
    show "\<not> resolved_invariant (startListening r)
        \<and> outfitRecommendations (startListening r) \<noteq> []
        \<and> sessionState (startListening r) = Listening"
      by (simp add: startListening_def sessionState_def)
  qed
  from a b c show ?thesis
    using inv_prompt [of prompt s] inv_generate [of input s] inv_reset [of s] inv_stop [of s]
      inv_onresult [of s event] inv_onerror [of s err] inv_onend [of s] inv_timer [of s]
    by blast
qed

text \<open>
  Witness for C5: after "Heading to work" is selected the state is reachable, Resolved,
  satisfies the equivalence and lets start succeed; after a further reset the state
  satisfies the equivalence and is not Resolved, and start keeps the equivalence there.
\<close>

theorem resolved_invariant_preserved_witness:
  "reachable \<lparr>has_SpeechRecognition = True, has_webkitSpeechRecognition = False\<rparr>
     (handlePromptClick ''Heading to work''
       (mount \<lparr>has_SpeechRecognition = True, has_webkitSpeechRecognition = False\<rparr>))
   \<and> sessionState
     (handlePromptClick ''Heading to work''
       (mount \<lparr>has_SpeechRecognition = True, has_webkitSpeechRecognition = False\<rparr>)) = Resolved
   \<and> resolved_invariant
     (handlePromptClick ''Heading to work''
       (mount \<lparr>has_SpeechRecognition = True, has_webkitSpeechRecognition = False\<rparr>))
   \<and> recognitionRef
     (handlePromptClick ''Heading to work''
       (mount \<lparr>has_SpeechRecognition = True, has_webkitSpeechRecognition = False\<rparr>)) \<noteq> None
   \<and> \<not> isListening
     (handlePromptClick ''Heading to work''
       (mount \<lparr>has_SpeechRecognition = True, has_webkitSpeechRecognition = False\<rparr>))
   \<and> outfitRecommendations
     (handlePromptClick ''Heading to work''
       (mount \<lparr>has_SpeechRecognition = True, has_webkitSpeechRecognition = False\<rparr>)) \<noteq> []
   \<and> \<not> resolved_invariant (startListening
     (handlePromptClick ''Heading to work''
       (mount \<lparr>has_SpeechRecognition = True, has_webkitSpeechRecognition = False\<rparr>)))
   \<and> resolved_invariant
     (resetApp (handlePromptClick ''Heading to work''
       (mount \<lparr>has_SpeechRecognition = True, has_webkitSpeechRecognition = False\<rparr>)))
   \<and> sessionState
     (resetApp (handlePromptClick ''Heading to work''
       (mount \<lparr>has_SpeechRecognition = True, has_webkitSpeechRecognition = False\<rparr>))) \<noteq> Resolved
   \<and> resolved_invariant (startListening
     (resetApp (handlePromptClick ''Heading to work''
       (mount \<lparr>has_SpeechRecognition = True, has_webkitSpeechRecognition = False\<rparr>))))
   \<and> resolved_invariant (stopListening
     (resetApp (handlePromptClick ''Heading to work''
       (mount \<lparr>has_SpeechRecognition = True, has_webkitSpeechRecognition = False\<rparr>))))"
proof -
  let ?w = "\<lparr>has_SpeechRecognition = True, has_webkitSpeechRecognition = False\<rparr>"
  let ?r = "handlePromptClick ''Heading to work'' (mount ?w)"
  have h1: "reachable ?w ?r"
    by (intro r_prompt r_mount)
  have h2: "sessionState ?r = Resolved"
    by (simp add: sessionState_def handlePromptClick_def generateOutfitRecommendations_def)
  have h3: "recognitionRef ?r \<noteq> None"
    by (simp add: handlePromptClick_def generateOutfitRecommendations_def mount_def initial_def)
  have h4: "\<not> isListening ?r"
    by (simp add: handlePromptClick_def generateOutfitRecommendations_def)
  have h5: "sessionState (resetApp ?r) \<noteq> Resolved"
    by (simp add: sessionState_def resetApp_def)
  from resolved_invariant_preserved [of ?w ?r "''Heading to work''" "mount ?w"]
  have h6: "resolved_invariant ?r"
    by blast
  from resolved_invariant_preserved [of ?w ?r _ "resetApp ?r"] h1 h2 h3 h4 h5 h6
    resolved_invariant_preserved [of ?w ?r _ ?r]
  show ?thesis
    by blast
qed

text \<open>
  Counterexample for C5 as stated: after "Heading to work" is selected the session is
  Resolved with a non-empty list. The microphone button of the input view, still
  mounted while that view leaves, is clicked: \<^verbatim>\<open>startListening\<close> passes its guard
  (the recognition object exists and \<^verbatim>\<open>isListening\<close> is false) and leaves the results
  view; afterwards the list is still non-empty while the session is Listening.
\<close>

theorem start_from_resolved_counterexample:
  "sessionState
     (handlePromptClick ''Heading to work''
       (mount \<lparr>has_SpeechRecognition = True, has_webkitSpeechRecognition = False\<rparr>)) = Resolved
   \<and> resolved_invariant
     (handlePromptClick ''Heading to work''
       (mount \<lparr>has_SpeechRecognition = True, has_webkitSpeechRecognition = False\<rparr>))
   \<and> reachable \<lparr>has_SpeechRecognition = True, has_webkitSpeechRecognition = False\<rparr>
     (startListening (handlePromptClick ''Heading to work''
       (mount \<lparr>has_SpeechRecognition = True, has_webkitSpeechRecognition = False\<rparr>)))
   \<and> outfitRecommendations
     (startListening (handlePromptClick ''Heading to work''
       (mount \<lparr>has_SpeechRecognition = True, has_webkitSpeechRecognition = False\<rparr>))) = work_set
   \<and> sessionState
     (startListening (handlePromptClick ''Heading to work''
       (mount \<lparr>has_SpeechRecognition = True, has_webkitSpeechRecognition = False\<rparr>))) = Listening
   \<and> \<not> resolved_invariant
     (startListening (handlePromptClick ''Heading to work''
       (mount \<lparr>has_SpeechRecognition = True, has_webkitSpeechRecognition = False\<rparr>)))"
proof -
  let ?w = "\<lparr>has_SpeechRecognition = True, has_webkitSpeechRecognition = False\<rparr>"
  have r: "recommendations ''Heading to work'' = work_set"
    by (simp add: recommendations_def Let_def toLowerCase_def lower_char_def
        upper_letters_def lower_letters_def)
  have p: "handlePromptClick ''Heading to work'' (mount ?w) =
      \<lparr>isListening = False, transcript = ''Heading to work'', showResults = True,
       outfitRecommendations = work_set,
       recognitionRef = Some \<lparr>continuous = False, interimResults = True, lang = ''en-US''\<rparr>,
       timeouts = [], effects = []\<rparr>"
    by (simp add: handlePromptClick_def generateOutfitRecommendations_def r mount_def initial_def)
  have w: "work_set \<noteq> []"
    by (simp add: work_set_def)
  have "reachable ?w (startListening (handlePromptClick ''Heading to work'' (mount ?w)))"
    by (intro r_start r_prompt r_mount)
  then show ?thesis
    using w by (simp add: p startListening_def sessionState_def resolved_invariant_def)
qed

text \<open>
  Claim C6. Once the session has reached the Resolved state, reset gives session state
  Idle with an empty transcript and an empty recommendation list, whatever the
  transcript and the recommendations were.
\<close>

theorem reset_after_resolved:
  assumes "reachable w s" and "sessionState s = Resolved"
  shows "sessionState (resetApp s) = Idle
    \<and> transcript (resetApp s) = []
    \<and> outfitRecommendations (resetApp s) = []"
proof -
  from assms(2) have "showResults s"
    by (simp add: sessionState_def split: if_splits)
  with assms(1) have "\<not> isListening s"
    by (rule results_not_listening)
  then show ?thesis
    by (simp add: sessionState_def resetApp_def)
qed

text \<open>
  Witness for C6: capture is started, the final segment "office party" arrives, the
  timeout fires and resolves it; reset then gives the Idle state.
\<close>

theorem reset_after_resolved_witness:
  "reachable \<lparr>has_SpeechRecognition = False, has_webkitSpeechRecognition = True\<rparr>
     (timer_fire (onresult
        \<lparr>results = [\<lparr>alt0_transcript = ''office party'', isFinal = True\<rparr>], resultIndex = 0\<rparr>
        (startListening (mount \<lparr>has_SpeechRecognition = False, has_webkitSpeechRecognition = True\<rparr>))))
   \<and> sessionState
     (timer_fire (onresult
        \<lparr>results = [\<lparr>alt0_transcript = ''office party'', isFinal = True\<rparr>], resultIndex = 0\<rparr>
        (startListening (mount \<lparr>has_SpeechRecognition = False, has_webkitSpeechRecognition = True\<rparr>))))
     = Resolved
   \<and> transcript
     (timer_fire (onresult
        \<lparr>results = [\<lparr>alt0_transcript = ''office party'', isFinal = True\<rparr>], resultIndex = 0\<rparr>
        (startListening (mount \<lparr>has_SpeechRecognition = False, has_webkitSpeechRecognition = True\<rparr>))))
     = ''office party''
   \<and> sessionState (resetApp
     (timer_fire (onresult
        \<lparr>results = [\<lparr>alt0_transcript = ''office party'', isFinal = True\<rparr>], resultIndex = 0\<rparr>
        (startListening (mount \<lparr>has_SpeechRecognition = False, has_webkitSpeechRecognition = True\<rparr>)))))
     = Idle
   \<and> transcript (resetApp
     (timer_fire (onresult
        \<lparr>results = [\<lparr>alt0_transcript = ''office party'', isFinal = True\<rparr>], resultIndex = 0\<rparr>
        (startListening (mount \<lparr>has_SpeechRecognition = False, has_webkitSpeechRecognition = True\<rparr>)))))
     = []
   \<and> outfitRecommendations (resetApp
     (timer_fire (onresult
        \<lparr>results = [\<lparr>alt0_transcript = ''office party'', isFinal = True\<rparr>], resultIndex = 0\<rparr>
        (startListening (mount \<lparr>has_SpeechRecognition = False, has_webkitSpeechRecognition = True\<rparr>)))))
     = []"
proof -
  let ?w = "\<lparr>has_SpeechRecognition = False, has_webkitSpeechRecognition = True\<rparr>"
  let ?e = "\<lparr>results = [\<lparr>alt0_transcript = ''office party'', isFinal = True\<rparr>], resultIndex = 0\<rparr>"
  let ?l = "startListening (mount ?w)"
  have ref: "recognitionRef ?l \<noteq> None"
    by (simp add: startListening_def mount_def initial_def)
  have h1: "reachable ?w (timer_fire (onresult ?e ?l))"
    by (intro r_timer r_result r_start r_mount ref)
  have o: "onresult ?e ?l =
     \<lparr>isListening = True, transcript = ''office party'', showResults = False,
      outfitRecommendations = [],
      recognitionRef = Some \<lparr>continuous = False, interimResults = True, lang = ''en-US''\<rparr>,
      timeouts = [''office party''], effects = [RecognitionStart]\<rparr>"
    by (simp add: onresult_def onresult_loop_segments segments_text_def startListening_def
        mount_def initial_def)
  have h2: "sessionState (timer_fire (onresult ?e ?l)) = Resolved"
    by (simp add: o timer_fire_def generateOutfitRecommendations_def sessionState_def)
  have t: "transcript (timer_fire (onresult ?e ?l)) = ''office party''"
    by (simp add: o timer_fire_def generateOutfitRecommendations_def)
  from reset_after_resolved [OF h1 h2] h1 h2 t show ?thesis
    by simp
qed

text \<open>
  Claim C8. When neither speech-recognition property is in the window, no recognition
  object exists in any state of any run: starting capture changes nothing at all
  (transcript, recommendations and session state included), the session is never
  Listening, and \<^verbatim>\<open>start()\<close> is never called on a recognition object.
\<close>

theorem start_without_capability:
  assumes "\<not> has_SpeechRecognition w" and "\<not> has_webkitSpeechRecognition w"
    and "reachable w s"
  shows "startListening s = s
    \<and> recognitionRef s = None
    \<and> sessionState s \<noteq> Listening
    \<and> sessionState (startListening s) \<noteq> Listening
    \<and> RecognitionStart \<notin> set (effects (startListening s))"
proof -
  from no_capability_invariant [OF assms(3) assms(1) assms(2)]
  have i: "recognitionRef s = None" "\<not> isListening s" "effects s = []"
    by simp_all
  from i(1) have "startListening s = s"
    by (simp add: startListening_def)
  with i show ?thesis
    by (simp add: sessionState_def)
qed

text \<open>
  Witness for C8: without the capability, "Meeting friends for brunch" is selected and
  reset; starting capture in that state does nothing.
\<close>

theorem start_without_capability_witness:
  "\<not> has_SpeechRecognition \<lparr>has_SpeechRecognition = False, has_webkitSpeechRecognition = False\<rparr>
   \<and> \<not> has_webkitSpeechRecognition \<lparr>has_SpeechRecognition = False, has_webkitSpeechRecognition = False\<rparr>
   \<and> reachable \<lparr>has_SpeechRecognition = False, has_webkitSpeechRecognition = False\<rparr>
       (resetApp (handlePromptClick ''Meeting friends for brunch''
         (mount \<lparr>has_SpeechRecognition = False, has_webkitSpeechRecognition = False\<rparr>)))
   \<and> startListening
       (resetApp (handlePromptClick ''Meeting friends for brunch''
         (mount \<lparr>has_SpeechRecognition = False, has_webkitSpeechRecognition = False\<rparr>)))
     = resetApp (handlePromptClick ''Meeting friends for brunch''
         (mount \<lparr>has_SpeechRecognition = False, has_webkitSpeechRecognition = False\<rparr>))
   \<and> sessionState (startListening
       (resetApp (handlePromptClick ''Meeting friends for brunch''
         (mount \<lparr>has_SpeechRecognition = False, has_webkitSpeechRecognition = False\<rparr>))))
     \<noteq> Listening"
proof -
  let ?w = "\<lparr>has_SpeechRecognition = False, has_webkitSpeechRecognition = False\<rparr>"
  have h1: "\<not> has_SpeechRecognition ?w" and h2: "\<not> has_webkitSpeechRecognition ?w"
    by simp_all
  have h3: "reachable ?w (resetApp (handlePromptClick ''Meeting friends for brunch'' (mount ?w)))"
    by (intro r_reset r_prompt r_mount)
  from start_without_capability [OF h1 h2 h3] h1 h2 h3 show ?thesis
    by blast
qed

text \<open>
  Claim C10. Whenever start succeeds (the recognition object exists and the component
  is not listening), \<^verbatim>\<open>startListening\<close> clears the transcript, leaves the results
  view, sets the listening flag and calls \<^verbatim>\<open>start()\<close>, and the recommendation list
  after it equals the list before it.
\<close>

theorem startListening_frame:
  assumes "recognitionRef s \<noteq> None" and "\<not> isListening s"
  shows "outfitRecommendations (startListening s) = outfitRecommendations s
    \<and> transcript (startListening s) = []
    \<and> \<not> showResults (startListening s)
    \<and> isListening (startListening s)
    \<and> effects (startListening s) = effects s @ [RecognitionStart]
    \<and> timeouts (startListening s) = timeouts s
    \<and> recognitionRef (startListening s) = recognitionRef s"
  using assms by (simp add: startListening_def)

text \<open>
  Witness for C10: after "Going to a dinner date" is selected, start succeeds and the
  Date-night list is still in place afterwards.
\<close>

theorem startListening_frame_witness:
  "recognitionRef
     (handlePromptClick ''Going to a dinner date''
       (mount \<lparr>has_SpeechRecognition = True, has_webkitSpeechRecognition = True\<rparr>)) \<noteq> None
   \<and> \<not> isListening
     (handlePromptClick ''Going to a dinner date''
       (mount \<lparr>has_SpeechRecognition = True, has_webkitSpeechRecognition = True\<rparr>))
   \<and> outfitRecommendations (startListening
     (handlePromptClick ''Going to a dinner date''
       (mount \<lparr>has_SpeechRecognition = True, has_webkitSpeechRecognition = True\<rparr>)))
     = date_night_set
   \<and> transcript (startListening
     (handlePromptClick ''Going to a dinner date''
       (mount \<lparr>has_SpeechRecognition = True, has_webkitSpeechRecognition = True\<rparr>)))
     = []"
proof -
  let ?s = "handlePromptClick ''Going to a dinner date''
       (mount \<lparr>has_SpeechRecognition = True, has_webkitSpeechRecognition = True\<rparr>)"
  have h1: "recognitionRef ?s \<noteq> None"
    by (simp add: handlePromptClick_def generateOutfitRecommendations_def mount_def initial_def)
  have h2: "\<not> isListening ?s"
    by (simp add: handlePromptClick_def generateOutfitRecommendations_def)
  have r: "recommendations ''Going to a dinner date'' = date_night_set"
    by (simp add: recommendations_def Let_def toLowerCase_def lower_char_def
        upper_letters_def lower_letters_def)
  have o: "outfitRecommendations ?s = date_night_set"
    by (simp add: handlePromptClick_def generateOutfitRecommendations_def r)
  from startListening_frame [OF h1 h2] h1 h2 o show ?thesis
    by simp
qed

end
